theory Spec2Isabelle
  imports Main
begin

section \<open>QJSX module resolution: the model\<close>

text \<open>
  The development embeds \<^verbatim>\<open>qjsx-module-resolution.h\<close> (the functions
  \<^verbatim>\<open>file_exists\<close>, \<^verbatim>\<open>resolve_qjsxpath\<close>, \<^verbatim>\<open>resolve_with_index\<close>,
  \<^verbatim>\<open>translate_colons_to_slashes\<close>) and the loader hook \<^verbatim>\<open>qjsx_loader\<close> of
  \<^verbatim>\<open>qjsx.c\<close>.

  A C string is a \<^typ>\<open>string\<close>: the bytes before the terminating NUL, so the character
  NUL never occurs in one. \<^verbatim>\<open>size_t\<close> values are lengths of strings held in memory
  plus 20, far from the wrap-around of the type, and are natural numbers. A \<^verbatim>\<open>char *\<close>
  result that may be \<^verbatim>\<open>NULL\<close> is a \<^typ>\<open>string option\<close>. \<^verbatim>\<open>js_free\<close> changes
  nothing that is modelled and is left out.
\<close>

subsection \<open>Platform constants\<close>

datatype platform = Posix | Win32

text \<open>\<^verbatim>\<open>PATH_SEP\<close> and \<^verbatim>\<open>DIR_SEP\<close>, chosen by \<^verbatim>\<open>#ifdef _WIN32\<close>.\<close>

fun PATH_SEP :: "platform \<Rightarrow> string" where
  "PATH_SEP Win32 = '';''"
| "PATH_SEP Posix = '':''"

fun DIR_SEP :: "platform \<Rightarrow> string" where
  "DIR_SEP Win32 = [CHR 0x5C]"
| "DIR_SEP Posix = ''/''"

subsection \<open>The surroundings of a call\<close>

text \<open>What \<^verbatim>\<open>stat\<close> reports in \<^verbatim>\<open>st_mode\<close> for a path it can reach
  (\<^verbatim>\<open>stat\<close> follows symbolic links, so a link is never reported itself).\<close>

datatype file_type = S_IFREG | S_IFDIR | S_IFCHR | S_IFBLK | S_IFIFO | S_IFSOCK

fun S_ISREG :: "file_type \<Rightarrow> bool" where
  "S_ISREG S_IFREG = True"
| "S_ISREG _ = False"

text \<open>
  Everything a call reads but does not change: the build platform, the value of the
  environment variable \<^verbatim>\<open>QJSXPATH\<close> (\<open>None\<close> when unset), the file system as
  \<^verbatim>\<open>stat\<close> and \<^verbatim>\<open>access(_, R_OK)\<close> see it, the outcome of the \<open>k\<close>-th
  allocation request made of the context (\<^verbatim>\<open>js_malloc\<close> and \<^verbatim>\<open>js_strdup\<close> return
  \<^verbatim>\<open>NULL\<close> when it is \<open>False\<close>), and the host engine's own loader
  \<^verbatim>\<open>js_module_loader\<close>, which returns a module or \<^verbatim>\<open>NULL\<close>.
\<close>

record 'm sys =
  plat :: platform
  getenv_QJSXPATH :: "string option"
  stat :: "string \<Rightarrow> file_type option"
  access_R_OK :: "string \<Rightarrow> bool"
  alloc_ok :: "nat \<Rightarrow> bool"
  native_loader :: "string \<Rightarrow> 'm option"

text \<open>
  What a call changes, as far as the properties below can see: the number of allocation
  requests made so far, the paths handed to \<^verbatim>\<open>file_exists\<close> so far and the paths
  handed to \<^verbatim>\<open>js_module_loader\<close> so far (both oldest first).
\<close>

record state =
  allocs :: nat
  fs_checks :: "string list"
  loads :: "string list"

subsection \<open>Library calls\<close>

text \<open>\<^verbatim>\<open>js_malloc\<close>: whether a buffer was obtained. The buffer's contents are written
  by \<^verbatim>\<open>snprintf\<close> before they are read, so only success matters.\<close>

definition js_malloc :: "'m sys \<Rightarrow> state \<Rightarrow> bool \<times> state" where
  "js_malloc sys st = (alloc_ok sys (allocs st), st\<lparr>allocs := Suc (allocs st)\<rparr>)"

text \<open>\<^verbatim>\<open>js_strdup\<close>: a fresh copy of the string, or \<^verbatim>\<open>NULL\<close>.\<close>

definition js_strdup :: "'m sys \<Rightarrow> string \<Rightarrow> state \<Rightarrow> string option \<times> state" where
  "js_strdup sys s st =
     (if alloc_ok sys (allocs st) then Some s else None, st\<lparr>allocs := Suc (allocs st)\<rparr>)"

text \<open>\<^verbatim>\<open>snprintf(buf, buflen, ...)\<close> stores at most \<open>buflen - 1\<close> characters of the
  formatted text \<open>s\<close>.\<close>

definition snprintf :: "nat \<Rightarrow> string \<Rightarrow> string" where
  "snprintf buflen s = take (buflen - 1) s"

text \<open>
  \<^verbatim>\<open>strtok\<close>, with its hidden position made explicit: applied to the text that is
  left, it skips leading delimiters, returns \<open>None\<close> when nothing remains, and otherwise
  the token up to the next delimiter together with the text after that delimiter.
\<close>

definition strtok :: "string \<Rightarrow> string \<Rightarrow> (string \<times> string) option" where
  "strtok s delim =
     (let s1 = dropWhile (\<lambda>c. c \<in> set delim) s in
      if s1 = [] then None
      else Some (takeWhile (\<lambda>c. c \<notin> set delim) s1,
                 drop 1 (dropWhile (\<lambda>c. c \<notin> set delim) s1)))"

text \<open>Calling the host loader, recorded in \<^const>\<open>loads\<close>.\<close>

definition js_module_loader :: "'m sys \<Rightarrow> string \<Rightarrow> state \<Rightarrow> 'm option \<times> state" where
  "js_module_loader sys path st = (native_loader sys path, st\<lparr>loads := loads st @ [path]\<rparr>)"

subsection \<open>\<^verbatim>\<open>file_exists\<close>\<close>

definition file_exists :: "'m sys \<Rightarrow> string \<Rightarrow> state \<Rightarrow> bool \<times> state" where
  "file_exists sys path st =
     ((case stat sys path of
         None \<Rightarrow> False
       | Some st_mode \<Rightarrow> S_ISREG st_mode \<and> access_R_OK sys path),
      st\<lparr>fs_checks := fs_checks st @ [path]\<rparr>)"

subsection \<open>\<^verbatim>\<open>resolve_qjsxpath\<close>\<close>

text \<open>
  The body of the \<^verbatim>\<open>for\<close> loop for one token \<open>path\<close>. \<open>len\<close> is taken before the
  last character is overwritten and is not updated. \<^verbatim>\<open>path[len-1]\<close> is a character of
  the token, never the terminator, so \<^verbatim>\<open>strchr("/\\", path[len-1])\<close> asks whether it is
  a slash or a backslash. The write \<^verbatim>\<open>path[len-1] = 0\<close> stays inside the token, so
  the text \<^verbatim>\<open>strtok\<close> has not consumed is untouched. \<^verbatim>\<open>snprintf\<close> formats into
  the one buffer three times. The result is the buffer on a \<^verbatim>\<open>break\<close>, and \<open>None\<close> when
  the loop goes on to the next token (by \<^verbatim>\<open>continue\<close> or by reaching the end of the
  body).
\<close>

definition qjsxpath_body :: "'m sys \<Rightarrow> string \<Rightarrow> string \<Rightarrow> state \<Rightarrow> string option \<times> state" where
  "qjsxpath_body sys name path st =
     (let len = length path;
          path' = (if len > 0 \<and> path ! (len - 1) \<in> set [CHR ''/'', CHR 0x5C]
                   then take (len - 1) path else path);
          buflen = len + length name + 20;
          (buf_ok, st1) = js_malloc sys st
      in if \<not> buf_ok then (None, st1)
         else
           let buf1 = snprintf buflen (path' @ DIR_SEP (plat sys) @ name @ DIR_SEP (plat sys) @ ''index.js'');
               (e1, st2) = file_exists sys buf1 st1
           in if e1 then (Some buf1, st2)
              else
                let buf2 = snprintf buflen (path' @ DIR_SEP (plat sys) @ name @ ''.js'');
                    (e2, st3) = file_exists sys buf2 st2
                in if e2 then (Some buf2, st3)
                   else
                     let buf3 = snprintf buflen (path' @ DIR_SEP (plat sys) @ name);
                         (e3, st4) = file_exists sys buf3 st3
                     in if e3 then (Some buf3, st4) else (None, st4))"

lemma strtok_Some:
  "strtok s delim = Some (tok, rest) \<Longrightarrow>
     dropWhile (\<lambda>c. c \<in> set delim) s \<noteq> [] \<and>
     tok = takeWhile (\<lambda>c. c \<notin> set delim) (dropWhile (\<lambda>c. c \<in> set delim) s) \<and>
     rest = drop 1 (dropWhile (\<lambda>c. c \<notin> set delim) (dropWhile (\<lambda>c. c \<in> set delim) s))"
  unfolding strtok_def Let_def by (simp split: if_splits)

lemma length_drop1: "xs \<noteq> [] \<Longrightarrow> length (drop 1 (dropWhile P xs)) < length xs"
proof -
  assume "xs \<noteq> []"
  then have "length xs > 0" by simp
  moreover have "length (dropWhile P xs) \<le> length xs" by (rule length_dropWhile_le)
  moreover have "length (drop 1 (dropWhile P xs)) = length (dropWhile P xs) - 1" by simp
  ultimately show ?thesis by linarith
qed

lemma strtok_shorter: "strtok s delim = Some (tok, rest) \<Longrightarrow> length rest < length s"
proof -
  assume a: "strtok s delim = Some (tok, rest)"
  let ?s1 = "dropWhile (\<lambda>c. c \<in> set delim) s"
  from strtok_Some [OF a]
  have ne: "?s1 \<noteq> []" and r: "rest = drop 1 (dropWhile (\<lambda>c. c \<notin> set delim) ?s1)"
    by blast+
  have "length rest < length ?s1" unfolding r using ne by (rule length_drop1)
  moreover have "length ?s1 \<le> length s" by (rule length_dropWhile_le)
  ultimately show ?thesis by linarith
qed

text \<open>
  The \<^verbatim>\<open>for\<close> loop: \<open>rest\<close> is the text \<^verbatim>\<open>strtok\<close> has not consumed yet. The loop
  ends when no token is left or when the body has set \<^verbatim>\<open>result\<close>.
\<close>

function qjsxpath_loop :: "'m sys \<Rightarrow> string \<Rightarrow> string \<Rightarrow> state \<Rightarrow> string option \<times> state" where
  "qjsxpath_loop sys name rest st =
     (case strtok rest (PATH_SEP (plat sys)) of
        None \<Rightarrow> (None, st)
      | Some (path, rest') \<Rightarrow>
          (case qjsxpath_body sys name path st of
             (Some buf, st') \<Rightarrow> (Some buf, st')
           | (None, st') \<Rightarrow> qjsxpath_loop sys name rest' st'))"
  by pat_completeness auto
termination
proof (relation "measure (\<lambda>(sys, name, rest, st). length rest)", goal_cases)
  case 1
  show ?case by simp
next
  case (2 sys name rest st x2 path rest')
  then have "strtok rest (PATH_SEP (plat sys)) = Some (path, rest')" by simp
  then show ?case by (simp add: strtok_shorter)
qed

definition resolve_qjsxpath :: "'m sys \<Rightarrow> string \<Rightarrow> state \<Rightarrow> string option \<times> state" where
  "resolve_qjsxpath sys name st =
     (case getenv_QJSXPATH sys of
        None \<Rightarrow> (None, st)
      | Some paths \<Rightarrow>
          (case js_strdup sys paths st of
             (None, st1) \<Rightarrow> (None, st1)
           | (Some copy, st1) \<Rightarrow> qjsxpath_loop sys name copy st1))"

subsection \<open>\<^verbatim>\<open>resolve_with_index\<close>\<close>

definition resolve_with_index :: "'m sys \<Rightarrow> string \<Rightarrow> state \<Rightarrow> string option \<times> state" where
  "resolve_with_index sys name st =
     (let name_len = length name;
          (e1, st1) = file_exists sys name st
      in if e1 then js_strdup sys name st1
         else
           let buflen = name_len + 20;
               (buf_ok, st2) = js_malloc sys st1
           in if \<not> buf_ok then (None, st2)
              else
                let buf2 = snprintf buflen (name @ ''.js'');
                    (e2, st3) = file_exists sys buf2 st2
                in if e2 then (Some buf2, st3)
                   else
                     let buf3 = snprintf buflen (name @ DIR_SEP (plat sys) @ ''index.js'');
                         (e3, st4) = file_exists sys buf3 st3
                     in if e3 then (Some buf3, st4) else (None, st4))"

subsection \<open>\<^verbatim>\<open>translate_colons_to_slashes\<close>\<close>

text \<open>\<^verbatim>\<open>strchr(s, c)\<close> for a character \<open>c\<close> other than NUL: whether \<open>c\<close> occurs.\<close>

definition strchr :: "string \<Rightarrow> char \<Rightarrow> bool" where
  "strchr s c = (c \<in> set s)"

text \<open>
  The loop \<^verbatim>\<open>for (p = translated; *p; p++)\<close> over the copy, \<open>i\<close> being the offset of
  \<open>p\<close>: it overwrites the copy in place, one character at a time.
\<close>

function colon_loop :: "string \<Rightarrow> nat \<Rightarrow> string" where
  "colon_loop translated i =
     (if i < length translated
      then colon_loop (if translated ! i = CHR '':'' then translated[i := CHR ''/''] else translated)
             (Suc i)
      else translated)"
  by pat_completeness auto
termination
  by (relation "measure (\<lambda>(translated, i). length translated - i)") auto

definition translate_colons_to_slashes :: "'m sys \<Rightarrow> string \<Rightarrow> state \<Rightarrow> string option \<times> state" where
  "translate_colons_to_slashes sys name st =
     (if \<not> strchr name CHR '':'' then (None, st)
      else
        (case js_strdup sys name st of
           (None, st1) \<Rightarrow> (None, st1)
         | (Some translated, st1) \<Rightarrow> (Some (colon_loop translated 0), st1)))"

text \<open>
  The same function on a memory of C strings, to see what it writes. \<open>mem\<close> gives the
  string stored at each address, \<open>name\<close> is the address of the argument and
  \<open>fresh\<close> the block \<^verbatim>\<open>js_strdup\<close> hands out (\<open>None\<close> when it fails); the
  function returns the pointer it returns and the memory it leaves.
\<close>

type_synonym addr = nat
type_synonym memory = "addr \<Rightarrow> string"

function colon_loop_mem :: "memory \<Rightarrow> addr \<Rightarrow> nat \<Rightarrow> memory" where
  "colon_loop_mem mem translated i =
     (if i < length (mem translated)
      then colon_loop_mem
             (if mem translated ! i = CHR '':''
              then mem(translated := (mem translated)[i := CHR ''/'']) else mem)
             translated (Suc i)
      else mem)"
  by pat_completeness auto
termination
  by (relation "measure (\<lambda>(mem, translated, i). length (mem translated) - i)") auto

definition translate_colons_to_slashes_mem ::
  "memory \<Rightarrow> addr \<Rightarrow> addr option \<Rightarrow> addr option \<times> memory" where
  "translate_colons_to_slashes_mem mem name fresh =
     (if \<not> strchr (mem name) CHR '':'' then (None, mem)
      else
        (case fresh of
           None \<Rightarrow> (None, mem)
         | Some translated \<Rightarrow>
             (Some translated, colon_loop_mem (mem(translated := mem name)) translated 0)))"

subsection \<open>\<^verbatim>\<open>qjsx_loader\<close>\<close>

text \<open>
  \<^verbatim>\<open>module_name[0] != '.' && module_name[0] != '/'\<close>: for the empty string
  \<^verbatim>\<open>module_name[0]\<close> is the terminator, which is neither character.
\<close>

definition is_bare :: "string \<Rightarrow> bool" where
  "is_bare module_name =
     (case module_name of
        [] \<Rightarrow> True
      | c # _ \<Rightarrow> c \<noteq> CHR ''.'' \<and> c \<noteq> CHR ''/'')"

definition qjsx_loader :: "'m sys \<Rightarrow> string \<Rightarrow> state \<Rightarrow> 'm option \<times> state" where
  "qjsx_loader sys name st =
     (let (translated_name, st1) = translate_colons_to_slashes sys name st;
          module_name = (case translated_name of Some t \<Rightarrow> t | None \<Rightarrow> name);
          (path, st2) = (if is_bare module_name then resolve_qjsxpath sys module_name st1
                         else (None, st1))
      in case path of
           Some p \<Rightarrow> js_module_loader sys p st2
         | None \<Rightarrow>
             (let (resolved_path, st3) = resolve_with_index sys module_name st2
              in case resolved_path of
                   Some rp \<Rightarrow> js_module_loader sys rp st3
                 | None \<Rightarrow> js_module_loader sys module_name st3))"


section \<open>Notions used to state the properties\<close>

text \<open>The value \<^const>\<open>file_exists\<close> returns: \<^verbatim>\<open>stat\<close> succeeds, the file is a
  regular file, and \<^verbatim>\<open>access\<close> grants reading.\<close>

definition readable_regular :: "'m sys \<Rightarrow> string \<Rightarrow> bool" where
  "readable_regular sys p = (stat sys p = Some S_IFREG \<and> access_R_OK sys p)"

text \<open>Trying a list of candidates in order and stopping at the first that passes:
  \<^const>\<open>find\<close> gives the candidate returned, \<open>probed_prefix\<close> the candidates that
  were checked (all of them when none passes).\<close>

fun probed_prefix :: "('a \<Rightarrow> bool) \<Rightarrow> 'a list \<Rightarrow> 'a list" where
  "probed_prefix P [] = []"
| "probed_prefix P (c # cs) = (if P c then [c] else c # probed_prefix P cs)"

text \<open>The two characters the search-path resolver removes from the end of an entry.\<close>

definition is_slash :: "char \<Rightarrow> bool" where
  "is_slash c = (c = CHR ''/'' \<or> c = CHR 0x5C)"

definition strip_trailing :: "string \<Rightarrow> string" where
  "strip_trailing d = (if d \<noteq> [] \<and> is_slash (last d) then butlast d else d)"

text \<open>The three candidates of a search-path entry \<open>d\<close>, in priority order.\<close>

definition candidates :: "platform \<Rightarrow> string \<Rightarrow> string \<Rightarrow> string list" where
  "candidates pf name d =
     [strip_trailing d @ DIR_SEP pf @ name @ DIR_SEP pf @ ''index.js'',
      strip_trailing d @ DIR_SEP pf @ name @ ''.js'',
      strip_trailing d @ DIR_SEP pf @ name]"

definition all_candidates :: "'m sys \<Rightarrow> string \<Rightarrow> string list \<Rightarrow> string list" where
  "all_candidates sys name ds = concat (map (candidates (plat sys) name) ds)"

text \<open>All tokens that repeated calls of \<^const>\<open>strtok\<close> return.\<close>

function tokens :: "string \<Rightarrow> string \<Rightarrow> string list" where
  "tokens delim s =
     (case strtok s delim of
        None \<Rightarrow> []
      | Some (tok, rest) \<Rightarrow> tok # tokens delim rest)"
  by pat_completeness auto
termination
proof (relation "measure (\<lambda>(delim, s). length s)", goal_cases)
  case 1
  show ?case by simp
next
  case (2 delim s x2 tok rest)
  then have "strtok s delim = Some (tok, rest)" by simp
  then show ?case by (simp add: strtok_shorter)
qed

text \<open>The loop body applied to a list of entries, until one yields a path.\<close>

primrec scan_dirs :: "'m sys \<Rightarrow> string \<Rightarrow> string list \<Rightarrow> state \<Rightarrow> string option \<times> state" where
  "scan_dirs sys name [] st = (None, st)"
| "scan_dirs sys name (d # ds) st =
     (case qjsxpath_body sys name d st of
        (Some buf, st') \<Rightarrow> (Some buf, st')
      | (None, st') \<Rightarrow> scan_dirs sys name ds st')"

text \<open>The entries whose candidate buffer is granted, when the entries are reached one
  after the other and the first of them makes allocation request number \<open>k\<close>.\<close>

fun granted :: "(nat \<Rightarrow> bool) \<Rightarrow> nat \<Rightarrow> 'a list \<Rightarrow> 'a list" where
  "granted ok k [] = []"
| "granted ok k (d # ds) = (if ok k then d # granted ok (Suc k) ds else granted ok (Suc k) ds)"

text \<open>Concrete surroundings for evaluating the model: a build for \<open>pf\<close>, the
  variable set to \<open>env\<close>, the readable regular files \<open>files\<close> and the directories
  \<open>dirs\<close> (nothing else exists), allocation outcomes \<open>ok\<close>, and a host loader that
  loads exactly the files of \<open>loadable\<close>, returning the path as the module.\<close>

definition example_sys ::
  "platform \<Rightarrow> string option \<Rightarrow> string list \<Rightarrow> string list \<Rightarrow> (nat \<Rightarrow> bool) \<Rightarrow> string list
     \<Rightarrow> string sys" where
  "example_sys pf env files dirs ok loadable =
     \<lparr>plat = pf, getenv_QJSXPATH = env,
      stat = (\<lambda>p. if p \<in> set files then Some S_IFREG
                  else if p \<in> set dirs then Some S_IFDIR else None),
      access_R_OK = (\<lambda>p. p \<in> set files \<or> p \<in> set dirs),
      alloc_ok = ok,
      native_loader = (\<lambda>p. if p \<in> set loadable then Some p else None)\<rparr>"

definition st0 :: state where
  "st0 = \<lparr>allocs = 0, fs_checks = [], loads = []\<rparr>"

text \<open>Splitting a path list at every separator, empty segments included, and the
  inverse: joining segments with the separator between them.\<close>

fun split_on :: "char \<Rightarrow> string \<Rightarrow> string list" where
  "split_on c [] = [[]]"
| "split_on c (x # xs) =
     (if x = c then [] # split_on c xs
      else (case split_on c xs of
              [] \<Rightarrow> [[x]]
            | seg # segs \<Rightarrow> (x # seg) # segs))"

fun join :: "char \<Rightarrow> string list \<Rightarrow> string" where
  "join c [] = []"
| "join c [s] = s"
| "join c (s # t # ts) = s @ c # join c (t # ts)"

text \<open>The one character of \<^const>\<open>PATH_SEP\<close>.\<close>

definition path_sep_char :: "platform \<Rightarrow> char" where
  "path_sep_char pf = hd (PATH_SEP pf)"

text \<open>The directories of a path list: its non-empty segments, in order.\<close>

definition search_dirs :: "platform \<Rightarrow> string \<Rightarrow> string list" where
  "search_dirs pf paths = filter (\<lambda>d. d \<noteq> []) (split_on (path_sep_char pf) paths)"

text \<open>A path list with its empty segments removed.\<close>

definition without_empty_segments :: "platform \<Rightarrow> string \<Rightarrow> string" where
  "without_empty_segments pf paths =
     join (path_sep_char pf) (filter (\<lambda>d. d \<noteq> []) (split_on (path_sep_char pf) paths))"




text \<open>The three candidates of the local resolver, in the order it tries them.\<close>

definition local_candidates :: "platform \<Rightarrow> string \<Rightarrow> string list" where
  "local_candidates pf name = [name, name @ ''.js'', name @ DIR_SEP pf @ ''index.js'']"

text \<open>What normalization does to one character, and the specifier the loader goes on
  with: the translated copy when there is one, the raw specifier otherwise.\<close>

definition colon_to_slash :: "char \<Rightarrow> char" where
  "colon_to_slash c = (if c = CHR '':'' then CHR ''/'' else c)"

definition normalized :: "'m sys \<Rightarrow> string \<Rightarrow> state \<Rightarrow> string" where
  "normalized sys name st =
     (case fst (translate_colons_to_slashes sys name st) of Some t \<Rightarrow> t | None \<Rightarrow> name)"

text \<open>
  The stages of the loader as the specification describes them: the search-path stage,
  run on the possibly normalized specifier when it is bare and skipped otherwise; the
  local stage, run on the same specifier in the state the search-path stage left; and
  the one path that is handed to the host loader.
\<close>

definition search_stage :: "'m sys \<Rightarrow> string \<Rightarrow> state \<Rightarrow> string option \<times> state" where
  "search_stage sys name st =
     (if is_bare (normalized sys name st)
      then resolve_qjsxpath sys (normalized sys name st)
             (snd (translate_colons_to_slashes sys name st))
      else (None, snd (translate_colons_to_slashes sys name st)))"

definition local_stage :: "'m sys \<Rightarrow> string \<Rightarrow> state \<Rightarrow> string option \<times> state" where
  "local_stage sys name st =
     resolve_with_index sys (normalized sys name st) (snd (search_stage sys name st))"

definition chosen_path :: "'m sys \<Rightarrow> string \<Rightarrow> state \<Rightarrow> string" where
  "chosen_path sys name st =
     (case fst (search_stage sys name st) of
        Some p \<Rightarrow> p
      | None \<Rightarrow>
          (case fst (local_stage sys name st) of
             Some q \<Rightarrow> q
           | None \<Rightarrow> normalized sys name st))"

section \<open>Auxiliary facts\<close>

subsection \<open>The loop body and the loop\<close>

declare qjsxpath_loop.simps [simp del]
declare tokens.simps [simp del]

lemma file_exists_eq:
  "file_exists sys p st = (readable_regular sys p, st\<lparr>fs_checks := fs_checks st @ [p]\<rparr>)"
proof -
  have "(case stat sys p of None \<Rightarrow> False | Some m \<Rightarrow> S_ISREG m \<and> access_R_OK sys p)
        = readable_regular sys p"
  proof (cases "stat sys p")
    case None
    then show ?thesis by (simp add: readable_regular_def)
  next
    case (Some m)
    then show ?thesis by (cases m) (simp_all add: readable_regular_def)
  qed
  then show ?thesis by (simp add: file_exists_def)
qed

lemma length_DIR_SEP: "length (DIR_SEP pf) = 1"
  by (cases pf) simp_all

lemma length_strip_trailing: "length (strip_trailing d) \<le> length d"
  by (simp add: strip_trailing_def)

lemma strip_trailing_code:
  "(if length path > 0 \<and> path ! (length path - 1) \<in> set [CHR ''/'', CHR 0x5C]
    then take (length path - 1) path else path) = strip_trailing path"
  by (cases "path = []") (auto simp: strip_trailing_def is_slash_def last_conv_nth butlast_conv_take)

lemma snprintf_fits: "length s < buflen \<Longrightarrow> snprintf buflen s = s"
  by (simp add: snprintf_def)

lemma qjsxpath_body_fail:
  "\<not> alloc_ok sys (allocs st) \<Longrightarrow>
     qjsxpath_body sys name path st = (None, st\<lparr>allocs := Suc (allocs st)\<rparr>)"
  by (simp add: qjsxpath_body_def js_malloc_def Let_def)

lemma qjsxpath_body_ok:
  assumes "alloc_ok sys (allocs st)"
  shows "qjsxpath_body sys name path st =
     (find (readable_regular sys) (candidates (plat sys) name path),
      st\<lparr>allocs := Suc (allocs st),
         fs_checks := fs_checks st @
           probed_prefix (readable_regular sys) (candidates (plat sys) name path)\<rparr>)"
proof -
  let ?n = "length path + length name + 20"
  let ?d = "strip_trailing path"
  let ?s = "DIR_SEP (plat sys)"
  have l: "length ?d \<le> length path" by (rule length_strip_trailing)
  have f1: "snprintf ?n (?d @ ?s @ name @ ?s @ ''index.js'') = ?d @ ?s @ name @ ?s @ ''index.js''"
    using l by (intro snprintf_fits) (simp add: length_DIR_SEP)
  have f2: "snprintf ?n (?d @ ?s @ name @ ''.js'') = ?d @ ?s @ name @ ''.js''"
    using l by (intro snprintf_fits) (simp add: length_DIR_SEP)
  have f3: "snprintf ?n (?d @ ?s @ name) = ?d @ ?s @ name"
    using l by (intro snprintf_fits) (simp add: length_DIR_SEP)
  show ?thesis
    unfolding qjsxpath_body_def Let_def strip_trailing_code f1 f2 f3
    using assms by (simp add: js_malloc_def file_exists_eq candidates_def)
qed


lemma qjsxpath_loop_scan:
  "qjsxpath_loop sys name rest st = scan_dirs sys name (tokens (PATH_SEP (plat sys)) rest) st"
proof (induction sys name rest st rule: qjsxpath_loop.induct)
  case (1 sys name rest st)
  show ?case
  proof (cases "strtok rest (PATH_SEP (plat sys))")
    case None
    then show ?thesis
      by (simp add: qjsxpath_loop.simps [of sys name rest] tokens.simps [of _ rest])
  next
    case (Some tr)
    obtain path rest' where tr: "tr = (path, rest')" by (cases tr)
    obtain r st' where b: "qjsxpath_body sys name path st = (r, st')"
      by (cases "qjsxpath_body sys name path st")
    show ?thesis
    proof (cases r)
      case None
      with 1 [OF Some tr [symmetric]] b Some tr show ?thesis
        by (simp add: qjsxpath_loop.simps [of sys name rest] tokens.simps [of _ rest])
    next
      case (Some buf)
      with b \<open>strtok rest (PATH_SEP (plat sys)) = Some tr\<close> tr show ?thesis
        by (simp add: qjsxpath_loop.simps [of sys name rest] tokens.simps [of _ rest])
    qed
  qed
qed

lemma find_append:
  "find P (xs @ ys) = (case find P xs of Some x \<Rightarrow> Some x | None \<Rightarrow> find P ys)"
  by (induction xs) simp_all

lemma probed_prefix_append:
  "probed_prefix P (xs @ ys) =
     (case find P xs of Some x \<Rightarrow> probed_prefix P xs | None \<Rightarrow> xs @ probed_prefix P ys)"
  by (induction xs) (simp_all split: option.splits)

lemma probed_prefix_None: "find P xs = None \<Longrightarrow> probed_prefix P xs = xs"
  by (induction xs) (simp_all split: if_splits)

lemma scan_dirs_eq:
  "fst (scan_dirs sys name ds st) =
     find (readable_regular sys) (all_candidates sys name (granted (alloc_ok sys) (allocs st) ds)) \<and>
   fs_checks (snd (scan_dirs sys name ds st)) =
     fs_checks st @ probed_prefix (readable_regular sys)
       (all_candidates sys name (granted (alloc_ok sys) (allocs st) ds)) \<and>
   loads (snd (scan_dirs sys name ds st)) = loads st"
proof (induction ds arbitrary: st)
  case Nil
  show ?case by (simp add: all_candidates_def)
next
  case (Cons d ds)
  show ?case
  proof (cases "alloc_ok sys (allocs st)")
    case False
    then show ?thesis
      using Cons [of "st\<lparr>allocs := Suc (allocs st)\<rparr>"]
      by (simp add: qjsxpath_body_fail)
  next
    case True
    let ?st' = "st\<lparr>allocs := Suc (allocs st),
         fs_checks := fs_checks st @
           probed_prefix (readable_regular sys) (candidates (plat sys) name d)\<rparr>"
    show ?thesis
    proof (cases "find (readable_regular sys) (candidates (plat sys) name d)")
      case None
      then show ?thesis
        using True Cons [of ?st']
        by (simp add: qjsxpath_body_ok all_candidates_def find_append probed_prefix_append
            probed_prefix_None)
    next
      case (Some buf)
      then show ?thesis
        using True
        by (simp add: qjsxpath_body_ok all_candidates_def find_append probed_prefix_append)
    qed
  qed
qed


subsection \<open>Tokens and segments of the path list\<close>

lemma PATH_SEP_char: "PATH_SEP pf = [path_sep_char pf]"
  by (cases pf) (simp_all add: path_sep_char_def)

lemma split_on_unfold:
  "split_on c s = takeWhile (\<lambda>x. x \<noteq> c) s #
     (case dropWhile (\<lambda>x. x \<noteq> c) s of [] \<Rightarrow> [] | y # r \<Rightarrow> split_on c r)"
  by (induction s) (auto split: list.splits)

lemma strtok_Nil: "strtok [] delim = None"
  by (simp add: strtok_def)

lemma strtok_skip: "strtok (c # xs) [c] = strtok xs [c]"
  by (simp add: strtok_def)

lemma strtok_tok:
  "x \<noteq> c \<Longrightarrow> strtok (x # xs) [c] =
     Some (takeWhile (\<lambda>y. y \<noteq> c) (x # xs), drop 1 (dropWhile (\<lambda>y. y \<noteq> c) (x # xs)))"
  by (simp add: strtok_def)

lemma tokens_Nil: "tokens delim [] = []"
  by (simp add: tokens.simps [of delim "[]"] strtok_Nil)

lemma tokens_skip: "tokens [c] (c # xs) = tokens [c] xs"
  by (simp add: tokens.simps [of "[c]" "c # xs"] tokens.simps [of "[c]" xs] strtok_skip)

lemma tokens_tok:
  "x \<noteq> c \<Longrightarrow> tokens [c] (x # xs) =
     takeWhile (\<lambda>y. y \<noteq> c) (x # xs) # tokens [c] (drop 1 (dropWhile (\<lambda>y. y \<noteq> c) (x # xs)))"
  by (simp add: tokens.simps [of "[c]" "x # xs"] strtok_tok del: takeWhile.simps dropWhile.simps)

lemma tokens_split: "tokens [c] s = filter (\<lambda>d. d \<noteq> []) (split_on c s)"
proof (induction s rule: length_induct)
  case (1 s)
  show ?case
  proof (cases s)
    case Nil
    then show ?thesis by (simp add: tokens_Nil)
  next
    case (Cons x xs)
    show ?thesis
    proof (cases "x = c")
      case True
      have "tokens [c] xs = filter (\<lambda>d. d \<noteq> []) (split_on c xs)"
        using 1 Cons by simp
      then show ?thesis using True Cons by (simp add: tokens_skip)
    next
      case False
      let ?dw = "dropWhile (\<lambda>y. y \<noteq> c) s"
      have tw: "takeWhile (\<lambda>y. y \<noteq> c) s \<noteq> []" using False Cons by simp
      have t: "tokens [c] s = takeWhile (\<lambda>y. y \<noteq> c) s # tokens [c] (drop 1 ?dw)"
        using False Cons tokens_tok [of x c xs] by simp
      show ?thesis
      proof (cases ?dw)
        case Nil
        have a: "split_on c s = [takeWhile (\<lambda>y. y \<noteq> c) s]"
          by (subst split_on_unfold) (simp only: Nil list.case)
        have b: "tokens [c] s = [takeWhile (\<lambda>y. y \<noteq> c) s]"
          unfolding t Nil by (simp add: tokens_Nil)
        show ?thesis unfolding a b using tw by simp
      next
        case (Cons y r)
        have "length r < length s"
          using length_dropWhile_le [of "\<lambda>y. y \<noteq> c" s] Cons by simp
        then have ih: "tokens [c] r = filter (\<lambda>d. d \<noteq> []) (split_on c r)"
          using 1 by simp
        have a: "split_on c s = takeWhile (\<lambda>y. y \<noteq> c) s # split_on c r"
          by (subst split_on_unfold) (simp only: Cons list.case)
        have b: "tokens [c] s = takeWhile (\<lambda>y. y \<noteq> c) s # tokens [c] r"
          unfolding t Cons by simp
        show ?thesis unfolding a b using tw ih by simp
      qed
    qed
  qed
qed

lemma tokens_PATH_SEP: "tokens (PATH_SEP pf) paths = search_dirs pf paths"
  by (simp add: PATH_SEP_char tokens_split search_dirs_def)

lemma resolve_qjsxpath_scan:
  "getenv_QJSXPATH sys = Some paths \<Longrightarrow>
     resolve_qjsxpath sys name st =
       (if alloc_ok sys (allocs st)
        then scan_dirs sys name (search_dirs (plat sys) paths) (st\<lparr>allocs := Suc (allocs st)\<rparr>)
        else (None, st\<lparr>allocs := Suc (allocs st)\<rparr>))"
  by (simp add: resolve_qjsxpath_def js_strdup_def qjsxpath_loop_scan tokens_PATH_SEP)

lemma granted_all: "\<forall>k. ok k \<Longrightarrow> granted ok k ds = ds"
  by (induction ds arbitrary: k) simp_all

lemma resolve_qjsxpath_eq:
  assumes "getenv_QJSXPATH sys = Some paths" and "alloc_ok sys (allocs st)"
  shows "fst (resolve_qjsxpath sys name st) =
           find (readable_regular sys)
             (all_candidates sys name
                (granted (alloc_ok sys) (Suc (allocs st)) (search_dirs (plat sys) paths)))"
    and "fs_checks (snd (resolve_qjsxpath sys name st)) =
           fs_checks st @ probed_prefix (readable_regular sys)
             (all_candidates sys name
                (granted (alloc_ok sys) (Suc (allocs st)) (search_dirs (plat sys) paths)))"
    and "loads (snd (resolve_qjsxpath sys name st)) = loads st"
  using assms
    scan_dirs_eq [of sys name "search_dirs (plat sys) paths" "st\<lparr>allocs := Suc (allocs st)\<rparr>"]
  by (simp_all add: resolve_qjsxpath_scan)

text \<open>The definitions a concrete evaluation unfolds.\<close>

lemmas eval_defs = example_sys_def st0_def search_dirs_def path_sep_char_def all_candidates_def
  candidates_def strip_trailing_def is_slash_def readable_regular_def

subsection \<open>Changing the path list\<close>

lemma readable_regular_env:
  "readable_regular (sys\<lparr>getenv_QJSXPATH := e\<rparr>) = readable_regular sys"
  by (simp add: fun_eq_iff readable_regular_def)

lemma qjsxpath_body_env:
  "qjsxpath_body (sys\<lparr>getenv_QJSXPATH := e\<rparr>) name path st = qjsxpath_body sys name path st"
proof (cases "alloc_ok sys (allocs st)")
  case True
  then show ?thesis by (simp add: qjsxpath_body_ok readable_regular_env)
next
  case False
  then show ?thesis by (simp add: qjsxpath_body_fail)
qed

lemma scan_dirs_env:
  "scan_dirs (sys\<lparr>getenv_QJSXPATH := e\<rparr>) name ds st = scan_dirs sys name ds st"
  by (induction ds arbitrary: st)
     (simp_all add: qjsxpath_body_env split: prod.splits option.splits)

lemma resolve_qjsxpath_env:
  "resolve_qjsxpath (sys\<lparr>getenv_QJSXPATH := Some paths\<rparr>) name st =
     (if alloc_ok sys (allocs st)
      then scan_dirs sys name (search_dirs (plat sys) paths) (st\<lparr>allocs := Suc (allocs st)\<rparr>)
      else (None, st\<lparr>allocs := Suc (allocs st)\<rparr>))"
  using resolve_qjsxpath_scan [of "sys\<lparr>getenv_QJSXPATH := Some paths\<rparr>" paths name st]
  by (simp add: scan_dirs_env)

lemma split_on_sep_free_id: "c \<notin> set s \<Longrightarrow> split_on c s = [s]"
  by (induction s) auto

lemma split_on_append_sep: "c \<notin> set s \<Longrightarrow> split_on c (s @ c # r) = s # split_on c r"
  by (induction s) auto

lemma split_on_join:
  "segs \<noteq> [] \<Longrightarrow> \<forall>s\<in>set segs. c \<notin> set s \<Longrightarrow> split_on c (join c segs) = segs"
proof (induction c segs rule: join.induct)
  case (1 c)
  then show ?case by simp
next
  case (2 c s)
  then show ?case by (simp add: split_on_sep_free_id)
next
  case (3 c s t ts)
  then show ?case by (simp add: split_on_append_sep)
qed

lemma split_on_sep_free: "seg \<in> set (split_on c s) \<Longrightarrow> c \<notin> set seg"
proof (induction s arbitrary: seg)
  case Nil
  then show ?case by simp
next
  case (Cons x xs)
  then show ?case
    by (cases "split_on c xs") (auto split: if_splits)
qed

lemma search_dirs_join:
  "\<forall>s\<in>set segs. path_sep_char pf \<notin> set s \<Longrightarrow>
     search_dirs pf (join (path_sep_char pf) segs) = filter (\<lambda>d. d \<noteq> []) segs"
  by (cases "segs = []") (simp_all add: search_dirs_def split_on_join)

lemma search_dirs_without_empty:
  "search_dirs pf (without_empty_segments pf paths) = search_dirs pf paths"
proof -
  have "\<forall>s\<in>set (filter (\<lambda>d. d \<noteq> []) (split_on (path_sep_char pf) paths)).
          path_sep_char pf \<notin> set s"
    using split_on_sep_free [of _ "path_sep_char pf" paths] by auto
  then show ?thesis
    unfolding without_empty_segments_def
    by (simp add: search_dirs_join) (simp add: search_dirs_def)
qed



subsection \<open>The stripped entry\<close>






subsection \<open>The local resolver\<close>

lemma resolve_with_index_ok:
  assumes "alloc_ok sys (allocs st)"
  shows "resolve_with_index sys name st =
     (find (readable_regular sys) (local_candidates (plat sys) name),
      st\<lparr>allocs := Suc (allocs st),
         fs_checks := fs_checks st @
           probed_prefix (readable_regular sys) (local_candidates (plat sys) name)\<rparr>)"
proof -
  let ?n = "length name + 20"
  let ?s = "DIR_SEP (plat sys)"
  have f2: "snprintf ?n (name @ ''.js'') = name @ ''.js''"
    by (intro snprintf_fits) simp
  have f3: "snprintf ?n (name @ ?s @ ''index.js'') = name @ ?s @ ''index.js''"
    by (intro snprintf_fits) (simp add: length_DIR_SEP)
  show ?thesis
    unfolding resolve_with_index_def Let_def f2 f3
    using assms by (simp add: js_malloc_def js_strdup_def file_exists_eq local_candidates_def)
qed

lemma resolve_with_index_fail:
  assumes "\<not> alloc_ok sys (allocs st)"
  shows "resolve_with_index sys name st =
     (None, st\<lparr>allocs := Suc (allocs st), fs_checks := fs_checks st @ [name]\<rparr>)"
  unfolding resolve_with_index_def Let_def
  using assms by (simp add: js_malloc_def js_strdup_def file_exists_eq)

lemma find_Some_D: "find P xs = Some x \<Longrightarrow> P x \<and> x \<in> set xs"
  by (induction xs) (auto split: if_splits)

lemma last_probed_prefix:
  "find P xs = Some x \<Longrightarrow> probed_prefix P xs \<noteq> [] \<and> last (probed_prefix P xs) = x"
  by (induction xs) (auto split: if_splits)

lemma set_granted: "set (granted ok k ds) \<subseteq> set ds"
  by (induction ds arbitrary: k) auto

lemma set_all_candidates_granted:
  "set (all_candidates sys name (granted ok k ds)) \<subseteq> set (all_candidates sys name ds)"
  using set_granted [of ok k ds] by (auto simp: all_candidates_def)

subsection \<open>Normalization\<close>

declare colon_loop.simps [simp del]
declare colon_loop_mem.simps [simp del]

lemma colon_loop_eq: "colon_loop t i = take i t @ map colon_to_slash (drop i t)"
proof (induction t i rule: colon_loop.induct)
  case (1 t i)
  show ?case
  proof (cases "i < length t")
    case False
    then show ?thesis by (simp add: colon_loop.simps [of t i])
  next
    case True
    let ?t' = "t[i := colon_to_slash (t ! i)]"
    have e: "(if t ! i = CHR '':'' then t[i := CHR ''/''] else t) = ?t'"
      by (simp add: colon_to_slash_def)
    have "colon_loop t i = colon_loop ?t' (Suc i)"
      using True by (subst colon_loop.simps) (simp add: e)
    also have "\<dots> = take (Suc i) ?t' @ map colon_to_slash (drop (Suc i) ?t')"
      using 1 [OF True] by (simp add: e)
    also have "\<dots> = take i t @ colon_to_slash (t ! i) # map colon_to_slash (drop (Suc i) t)"
      using True by (simp add: take_Suc_conv_app_nth)
    also have "\<dots> = take i t @ map colon_to_slash (drop i t)"
      using True by (simp add: Cons_nth_drop_Suc [symmetric])
    finally show ?thesis .
  qed
qed

lemma colon_loop_mem_eq:
  "colon_loop_mem mem t i = mem(t := colon_loop (mem t) i)"
proof (induction mem t i rule: colon_loop_mem.induct)
  case (1 mem t i)
  show ?case
  proof (cases "i < length (mem t)")
    case False
    then show ?thesis
      by (simp add: colon_loop_mem.simps [of mem t i] colon_loop.simps [of "mem t" i])
  next
    case True
    show ?thesis
    proof (cases "mem t ! i = CHR '':''")
      case c: True
      let ?m = "mem(t := (mem t)[i := CHR ''/''])"
      have s: "(if mem t ! i = CHR '':'' then ?m else mem) = ?m"
        by (simp only: c if_True simp_thms)
      have "colon_loop_mem mem t i = colon_loop_mem ?m t (Suc i)"
        using True by (subst colon_loop_mem.simps) (simp only: s if_True)
      also have "\<dots> = ?m(t := colon_loop (?m t) (Suc i))"
        using 1 [OF True] by (simp only: s)
      also have "\<dots> = mem(t := colon_loop ((mem t)[i := CHR ''/'']) (Suc i))"
        by simp
      also have "colon_loop ((mem t)[i := CHR ''/'']) (Suc i) = colon_loop (mem t) i"
        using True c by (subst (2) colon_loop.simps) simp
      finally show ?thesis .
    next
      case c: False
      have s: "(if mem t ! i = CHR '':'' then mem(t := (mem t)[i := CHR ''/'']) else mem) = mem"
        using c by (simp only: if_False simp_thms)
      have "colon_loop_mem mem t i = colon_loop_mem mem t (Suc i)"
        using True by (subst colon_loop_mem.simps) (simp only: s if_True)
      also have "\<dots> = mem(t := colon_loop (mem t) (Suc i))"
        using 1 [OF True] by (simp only: s)
      also have "colon_loop (mem t) (Suc i) = colon_loop (mem t) i"
        using True c by (subst (2) colon_loop.simps) simp
      finally show ?thesis .
    qed
  qed
qed

lemma translate_colons_to_slashes_eq:
  "translate_colons_to_slashes sys name st =
     (if CHR '':'' \<notin> set name then (None, st)
      else if alloc_ok sys (allocs st)
      then (Some (map colon_to_slash name), st\<lparr>allocs := Suc (allocs st)\<rparr>)
      else (None, st\<lparr>allocs := Suc (allocs st)\<rparr>))"
  by (simp add: translate_colons_to_slashes_def strchr_def js_strdup_def colon_loop_eq)

lemma translate_colons_to_slashes_mem_eq:
  "translate_colons_to_slashes_mem mem a fresh =
     (if CHR '':'' \<notin> set (mem a) then (None, mem)
      else case fresh of None \<Rightarrow> (None, mem)
           | Some t \<Rightarrow> (Some t, mem(t := map colon_to_slash (mem a))))"
  by (simp add: translate_colons_to_slashes_mem_def strchr_def colon_loop_mem_eq colon_loop_eq
      split: option.splits)

lemma normalized_eq:
  "normalized sys name st =
     (if CHR '':'' \<in> set name \<and> alloc_ok sys (allocs st) then map colon_to_slash name else name)"
  by (simp add: normalized_def translate_colons_to_slashes_eq)

subsection \<open>The stages of the loader\<close>

lemma translate_keeps:
  "loads (snd (translate_colons_to_slashes sys name st)) = loads st"
  "fs_checks (snd (translate_colons_to_slashes sys name st)) = fs_checks st"
  by (simp_all add: translate_colons_to_slashes_eq)

lemma resolve_qjsxpath_loads: "loads (snd (resolve_qjsxpath sys name st)) = loads st"
proof (cases "getenv_QJSXPATH sys")
  case None
  then show ?thesis by (simp add: resolve_qjsxpath_def)
next
  case (Some paths)
  show ?thesis
  proof (cases "alloc_ok sys (allocs st)")
    case True
    then show ?thesis by (rule resolve_qjsxpath_eq(3) [OF Some])
  next
    case False
    then show ?thesis by (simp add: resolve_qjsxpath_scan [OF Some])
  qed
qed

lemma resolve_with_index_loads: "loads (snd (resolve_with_index sys name st)) = loads st"
  by (cases "alloc_ok sys (allocs st)")
     (simp_all add: resolve_with_index_ok resolve_with_index_fail)

lemma search_stage_loads: "loads (snd (search_stage sys name st)) = loads st"
  by (simp add: search_stage_def resolve_qjsxpath_loads translate_keeps)

lemma local_stage_loads: "loads (snd (local_stage sys name st)) = loads st"
  by (simp add: local_stage_def resolve_with_index_loads search_stage_loads)

lemma qjsx_loader_stages:
  "qjsx_loader sys name st =
     (case fst (search_stage sys name st) of
        Some p \<Rightarrow> js_module_loader sys p (snd (search_stage sys name st))
      | None \<Rightarrow> js_module_loader sys (chosen_path sys name st) (snd (local_stage sys name st)))"
  unfolding qjsx_loader_def search_stage_def local_stage_def chosen_path_def normalized_def
  by (simp add: split_beta Let_def split: option.splits)

lemma is_bare_take: "is_bare m = (take 1 m \<noteq> ''.'' \<and> take 1 m \<noteq> ''/'')"
  by (cases m) (simp_all add: is_bare_def)

lemma search_stage_eval:
  assumes "translate_colons_to_slashes sys name st = (tr, st1)"
    and "m = (case tr of Some t \<Rightarrow> t | None \<Rightarrow> name)"
  shows "search_stage sys name st =
           (if is_bare m then resolve_qjsxpath sys m st1 else (None, st1))"
    and "normalized sys name st = m"
  using assms by (simp_all add: search_stage_def normalized_def)

lemma resolve_qjsxpath_readable:
  assumes "fst (resolve_qjsxpath sys name st) = Some p"
  shows "readable_regular sys p"
proof -
  from assms obtain paths where e: "getenv_QJSXPATH sys = Some paths"
    by (cases "getenv_QJSXPATH sys") (auto simp: resolve_qjsxpath_def)
  have ok: "alloc_ok sys (allocs st)"
    using assms e by (cases "alloc_ok sys (allocs st)") (auto simp: resolve_qjsxpath_scan)
  show ?thesis
    using assms resolve_qjsxpath_eq(1) [OF e ok, of name] find_Some_D by fastforce
qed

lemma resolve_with_index_readable:
  assumes "fst (resolve_with_index sys name st) = Some p"
  shows "readable_regular sys p"
proof -
  have ok: "alloc_ok sys (allocs st)"
    using assms by (cases "alloc_ok sys (allocs st)") (auto simp: resolve_with_index_fail)
  show ?thesis
    using assms find_Some_D by (fastforce simp: resolve_with_index_ok [OF ok])
qed

lemma chosen_path_cases:
  "readable_regular sys (chosen_path sys name st) \<or>
   chosen_path sys name st = normalized sys name st"
proof (cases "fst (search_stage sys name st)")
  case (Some p)
  then have "readable_regular sys p"
    by (auto simp: search_stage_def intro: resolve_qjsxpath_readable split: if_splits)
  with Some show ?thesis by (simp add: chosen_path_def)
next
  case None
  show ?thesis
  proof (cases "fst (local_stage sys name st)")
    case (Some q)
    then have "readable_regular sys q"
      by (auto simp: local_stage_def intro: resolve_with_index_readable)
    with None Some show ?thesis by (simp add: chosen_path_def)
  next
    case n: None
    with None show ?thesis by (simp add: chosen_path_def)
  qed
qed

lemma normalized_cases:
  "normalized sys name st = name \<or> normalized sys name st = map colon_to_slash name"
  by (simp add: normalized_eq)

subsection \<open>Separators at the join point\<close>







section \<open>Properties\<close>

subsection \<open>The search-path stage without the variable\<close>

text \<open>
  C7. If the environment variable \<^verbatim>\<open>QJSXPATH\<close> is unset, the search-path stage
  signals absence whatever the specifier is, and it leaves the state as it found it: no
  call of \<^verbatim>\<open>file_exists\<close> is made (and no allocation either).
\<close>

theorem resolve_qjsxpath_unset:
  "getenv_QJSXPATH sys = None \<Longrightarrow> resolve_qjsxpath sys name st = (None, st)"
  by (simp add: resolve_qjsxpath_def)

theorem resolve_qjsxpath_unset_witness:
  "getenv_QJSXPATH (example_sys Posix None [''./dir/util.js''] [''./dir''] (\<lambda>k. True) []) = None \<and>
   resolve_qjsxpath (example_sys Posix None [''./dir/util.js''] [''./dir''] (\<lambda>k. True) [])
     ''util'' st0 = (None, st0)"
proof
  show h: "getenv_QJSXPATH (example_sys Posix None [''./dir/util.js''] [''./dir''] (\<lambda>k. True) []) = None"
    by (simp add: example_sys_def)
  show "resolve_qjsxpath (example_sys Posix None [''./dir/util.js''] [''./dir''] (\<lambda>k. True) [])
     ''util'' st0 = (None, st0)"
    by (rule resolve_qjsxpath_unset [OF h])
qed

subsection \<open>Search-path resolution: order of directories and candidates\<close>

text \<open>
  C1. For every bare specifier and every value of \<^verbatim>\<open>QJSXPATH\<close>, search-path
  resolution goes through the directories of the path list in list order. For each
  directory it removes one trailing separator (a slash or a backslash, see
  \<^const>\<open>strip_trailing\<close>) and builds exactly the three candidates
  \<open>dir/spec/index.js\<close>, \<open>dir/spec.js\<close>, \<open>dir/spec\<close> in this order
  (\<^const>\<open>candidates\<close>). The result is the first candidate, in this overall order, that
  exists, and the existence checks made are exactly the candidates up to and including
  that one: no later candidate and no later directory is tried. When none exists the
  result is absence and every candidate has been checked. (Allocation is assumed to
  succeed; the specifier may be any string.)
\<close>

theorem resolve_qjsxpath_order:
  assumes "getenv_QJSXPATH sys = Some paths" and "\<forall>k. alloc_ok sys k"
  shows "fst (resolve_qjsxpath sys name st) =
           find (readable_regular sys) (all_candidates sys name (search_dirs (plat sys) paths)) \<and>
         fs_checks (snd (resolve_qjsxpath sys name st)) =
           fs_checks st @ probed_prefix (readable_regular sys)
             (all_candidates sys name (search_dirs (plat sys) paths))"
proof -
  have ok: "alloc_ok sys (allocs st)" using assms(2) by simp
  have g: "granted (alloc_ok sys) (Suc (allocs st)) (search_dirs (plat sys) paths) =
           search_dirs (plat sys) paths"
    using assms(2) by (rule granted_all)
  show ?thesis
    using resolve_qjsxpath_eq(1,2) [OF assms(1) ok, of name] by (simp add: g)
qed

theorem resolve_qjsxpath_order_witness:
  "getenv_QJSXPATH (example_sys Posix (Some ''./modA:./modB'')
       [''./modA/util/index.js'', ''./modB/util.js''] [''./modA'', ''./modA/util'', ''./modB'']
       (\<lambda>k. True) []) = Some ''./modA:./modB'' \<and>
   (\<forall>k. alloc_ok (example_sys Posix (Some ''./modA:./modB'')
       [''./modA/util/index.js'', ''./modB/util.js''] [''./modA'', ''./modA/util'', ''./modB'']
       (\<lambda>k. True) []) k) \<and>
   fst (resolve_qjsxpath (example_sys Posix (Some ''./modA:./modB'')
       [''./modA/util/index.js'', ''./modB/util.js''] [''./modA'', ''./modA/util'', ''./modB'']
       (\<lambda>k. True) []) ''util'' st0) = Some ''./modA/util/index.js'' \<and>
   fs_checks (snd (resolve_qjsxpath (example_sys Posix (Some ''./modA:./modB'')
       [''./modA/util/index.js'', ''./modB/util.js''] [''./modA'', ''./modA/util'', ''./modB'']
       (\<lambda>k. True) []) ''util'' st0)) = [''./modA/util/index.js'']"
proof -
  let ?sys = "example_sys Posix (Some ''./modA:./modB'')
       [''./modA/util/index.js'', ''./modB/util.js''] [''./modA'', ''./modA/util'', ''./modB'']
       (\<lambda>k. True) []"
  have h1: "getenv_QJSXPATH ?sys = Some ''./modA:./modB''" by (simp add: example_sys_def)
  have h2: "\<forall>k. alloc_ok ?sys k" by (simp add: example_sys_def)
  have d: "search_dirs (plat ?sys) ''./modA:./modB'' = [''./modA'', ''./modB'']"
    by (simp add: eval_defs)
  show ?thesis
    using resolve_qjsxpath_order [OF h1 h2, of "''util''" st0] h1 h2
    unfolding d by (simp add: eval_defs)
qed

subsection \<open>Empty segments of the path list\<close>

text \<open>
  C9. Empty segments of the path list are tolerated and never contribute a path: for
  every specifier, file system and outcome of the allocations, search-path resolution
  over a path list behaves exactly (same result, same state afterwards) as over that
  list with its empty segments removed, and over a path list that has only empty
  segments it signals absence without a single existence check.
\<close>

theorem empty_segments_ignored:
  "resolve_qjsxpath (sys\<lparr>getenv_QJSXPATH := Some paths\<rparr>) name st =
     resolve_qjsxpath
       (sys\<lparr>getenv_QJSXPATH := Some (without_empty_segments (plat sys) paths)\<rparr>) name st \<and>
   ((\<forall>seg\<in>set (split_on (path_sep_char (plat sys)) paths). seg = []) \<longrightarrow>
      fst (resolve_qjsxpath (sys\<lparr>getenv_QJSXPATH := Some paths\<rparr>) name st) = None \<and>
      fs_checks (snd (resolve_qjsxpath (sys\<lparr>getenv_QJSXPATH := Some paths\<rparr>) name st)) =
        fs_checks st)"
proof (intro conjI impI)
  show "resolve_qjsxpath (sys\<lparr>getenv_QJSXPATH := Some paths\<rparr>) name st =
     resolve_qjsxpath
       (sys\<lparr>getenv_QJSXPATH := Some (without_empty_segments (plat sys) paths)\<rparr>) name st"
    by (simp only: resolve_qjsxpath_env search_dirs_without_empty)
next
  assume "\<forall>seg\<in>set (split_on (path_sep_char (plat sys)) paths). seg = []"
  then have e: "search_dirs (plat sys) paths = []"
    by (auto simp: search_dirs_def filter_empty_conv)
  show "fst (resolve_qjsxpath (sys\<lparr>getenv_QJSXPATH := Some paths\<rparr>) name st) = None"
    by (simp add: resolve_qjsxpath_env e)
  show "fs_checks (snd (resolve_qjsxpath (sys\<lparr>getenv_QJSXPATH := Some paths\<rparr>) name st)) =
        fs_checks st"
    by (simp add: resolve_qjsxpath_env e)
qed


theorem empty_segments_ignored_witness:
  "resolve_qjsxpath
     (example_sys Posix None [''./b/util''] [''./a'', ''./b''] (\<lambda>k. True) []
        \<lparr>getenv_QJSXPATH := Some ''::./a:::./b:''\<rparr>) ''util'' st0 =
   resolve_qjsxpath
     (example_sys Posix None [''./b/util''] [''./a'', ''./b''] (\<lambda>k. True) []
        \<lparr>getenv_QJSXPATH := Some ''./a:./b''\<rparr>) ''util'' st0 \<and>
   split_on (path_sep_char Posix) '':::'' = [[], [], [], []] \<and>
   fst (resolve_qjsxpath
     (example_sys Posix None [''./b/util''] [''./a'', ''./b''] (\<lambda>k. True) []
        \<lparr>getenv_QJSXPATH := Some '':::''\<rparr>) ''util'' st0) = None \<and>
   fs_checks (snd (resolve_qjsxpath
     (example_sys Posix None [''./b/util''] [''./a'', ''./b''] (\<lambda>k. True) []
        \<lparr>getenv_QJSXPATH := Some '':::''\<rparr>) ''util'' st0)) = []"
proof -
  let ?sys = "example_sys Posix None [''./b/util''] [''./a'', ''./b''] (\<lambda>k. True) []"
  have p: "plat ?sys = Posix" by (simp add: example_sys_def)
  have w: "without_empty_segments Posix ''::./a:::./b:'' = ''./a:./b''"
    by (simp add: without_empty_segments_def path_sep_char_def)
  have e': "split_on (path_sep_char Posix) '':::'' = [[], [], [], []]"
    by (simp add: path_sep_char_def)
  then have e: "\<forall>seg\<in>set (split_on (path_sep_char Posix) '':::''). seg = []"
    by simp
  have s: "fs_checks st0 = []" by (simp add: st0_def)
  show ?thesis
    using empty_segments_ignored
        [where sys = ?sys and paths = "''::./a:::./b:''" and name = "''util''" and st = st0]
      empty_segments_ignored
        [where sys = ?sys and paths = "'':::''" and name = "''util''" and st = st0] e e'
    unfolding p w s by blast
qed

subsection \<open>Trailing separators of a search-path entry\<close>




subsection \<open>Local resolution\<close>

text \<open>
  C3. For every specifier, local resolution tries exactly three candidates in this
  order and stops at the first that exists: the specifier as given, the specifier with
  \<open>.js\<close> appended, the specifier with the directory separator and \<open>index.js\<close>
  appended. The result is the first of them that exists and the existence checks made
  are the candidates up to and including it; when none exists the result is absence
  (after three checks); a specifier that names an existing file is returned unchanged.
  (The one allocation the call makes is assumed to succeed.)
\<close>

theorem resolve_with_index_order:
  "alloc_ok sys (allocs st) \<Longrightarrow>
     fst (resolve_with_index sys name st) =
       find (readable_regular sys) [name, name @ ''.js'', name @ DIR_SEP (plat sys) @ ''index.js''] \<and>
     fs_checks (snd (resolve_with_index sys name st)) =
       fs_checks st @ probed_prefix (readable_regular sys)
         [name, name @ ''.js'', name @ DIR_SEP (plat sys) @ ''index.js''] \<and>
     (readable_regular sys name \<longrightarrow> fst (resolve_with_index sys name st) = Some name) \<and>
     (\<not> readable_regular sys name \<and> \<not> readable_regular sys (name @ ''.js'') \<and>
      \<not> readable_regular sys (name @ DIR_SEP (plat sys) @ ''index.js'') \<longrightarrow>
        fst (resolve_with_index sys name st) = None)"
  by (simp add: resolve_with_index_ok local_candidates_def)

theorem resolve_with_index_order_witness:
  "alloc_ok (example_sys Posix None [''./bar.js''] [''.''] (\<lambda>k. True) []) (allocs st0) \<and>
   fst (resolve_with_index (example_sys Posix None [''./bar.js''] [''.''] (\<lambda>k. True) [])
          ''./bar'' st0) = Some ''./bar.js'' \<and>
   fs_checks (snd (resolve_with_index (example_sys Posix None [''./bar.js''] [''.''] (\<lambda>k. True) [])
          ''./bar'' st0)) = [''./bar'', ''./bar.js''] \<and>
   readable_regular (example_sys Posix None [''./bar.js''] [''.''] (\<lambda>k. True) []) ''./bar.js'' \<and>
   fst (resolve_with_index (example_sys Posix None [''./bar.js''] [''.''] (\<lambda>k. True) [])
          ''./bar.js'' st0) = Some ''./bar.js'' \<and>
   fst (resolve_with_index (example_sys Posix None [''./bar.js''] [''.''] (\<lambda>k. True) [])
          ''./baz'' st0) = None \<and>
   fs_checks (snd (resolve_with_index (example_sys Posix None [''./bar.js''] [''.''] (\<lambda>k. True) [])
          ''./baz'' st0)) = [''./baz'', ''./baz.js'', ''./baz/index.js'']"
proof -
  let ?sys = "example_sys Posix None [''./bar.js''] [''.''] (\<lambda>k. True) []"
  have h: "alloc_ok ?sys (allocs st0)" by (simp add: example_sys_def)
  show ?thesis
    using h resolve_with_index_order [OF h, of "''./bar''"]
      resolve_with_index_order [OF h, of "''./bar.js''"]
      resolve_with_index_order [OF h, of "''./baz''"]
    by (simp add: eval_defs)
qed

subsection \<open>Only verified paths are returned\<close>

text \<open>
  C5. Whatever the environment, the file system and the outcome of allocations: a path
  returned by the search-path resolver or by the local resolver names a file for which
  \<^verbatim>\<open>stat\<close> succeeded and reported a regular file and \<^verbatim>\<open>access\<close> granted
  reading; it is the path of the last existence check the call made; and it is one of
  the complete candidates of the resolver (never a truncated one). In every other case
  the result is absence.
\<close>

theorem resolved_paths_verified:
  "(fst (resolve_qjsxpath sys name st) = Some p \<longrightarrow>
      stat sys p = Some S_IFREG \<and> access_R_OK sys p \<and>
      last (fs_checks (snd (resolve_qjsxpath sys name st))) = p \<and>
      (\<exists>paths. getenv_QJSXPATH sys = Some paths \<and>
         p \<in> set (all_candidates sys name (search_dirs (plat sys) paths)))) \<and>
   (fst (resolve_with_index sys name st) = Some p \<longrightarrow>
      stat sys p = Some S_IFREG \<and> access_R_OK sys p \<and>
      last (fs_checks (snd (resolve_with_index sys name st))) = p \<and>
      p \<in> set [name, name @ ''.js'', name @ DIR_SEP (plat sys) @ ''index.js''])"
proof (intro conjI impI)
  assume a: "fst (resolve_qjsxpath sys name st) = Some p"
  then obtain paths where e: "getenv_QJSXPATH sys = Some paths"
    by (cases "getenv_QJSXPATH sys") (auto simp: resolve_qjsxpath_def)
  have ok: "alloc_ok sys (allocs st)"
    using a e by (cases "alloc_ok sys (allocs st)") (auto simp: resolve_qjsxpath_scan)
  let ?cs = "all_candidates sys name
               (granted (alloc_ok sys) (Suc (allocs st)) (search_dirs (plat sys) paths))"
  have f: "find (readable_regular sys) ?cs = Some p"
    using a resolve_qjsxpath_eq(1) [OF e ok, of name] by simp
  from find_Some_D [OF f] have r: "readable_regular sys p" and m: "p \<in> set ?cs" by simp_all
  from r show "stat sys p = Some S_IFREG" and "access_R_OK sys p"
    by (simp_all add: readable_regular_def)
  show "last (fs_checks (snd (resolve_qjsxpath sys name st))) = p"
    using last_probed_prefix [OF f] resolve_qjsxpath_eq(2) [OF e ok, of name] by simp
  show "\<exists>paths. getenv_QJSXPATH sys = Some paths \<and>
         p \<in> set (all_candidates sys name (search_dirs (plat sys) paths))"
    using e m set_all_candidates_granted by blast
next
  assume a: "fst (resolve_with_index sys name st) = Some p"
  have ok: "alloc_ok sys (allocs st)"
    using a by (cases "alloc_ok sys (allocs st)") (auto simp: resolve_with_index_fail)
  let ?cs = "local_candidates (plat sys) name"
  have f: "find (readable_regular sys) ?cs = Some p"
    using a by (simp add: resolve_with_index_ok [OF ok])
  from find_Some_D [OF f] have r: "readable_regular sys p" and m: "p \<in> set ?cs" by simp_all
  from r show "stat sys p = Some S_IFREG" and "access_R_OK sys p"
    by (simp_all add: readable_regular_def)
  show "last (fs_checks (snd (resolve_with_index sys name st))) = p"
    using last_probed_prefix [OF f] by (simp add: resolve_with_index_ok [OF ok])
  show "p \<in> set [name, name @ ''.js'', name @ DIR_SEP (plat sys) @ ''index.js'']"
    using m by (simp add: local_candidates_def)
qed

theorem resolved_paths_verified_witness:
  "fst (resolve_qjsxpath
          (example_sys Posix (Some ''./dir'') [''./dir/util.js''] [''./dir'', ''./dir/util'']
             (\<lambda>k. True) []) ''util'' st0) = Some ''./dir/util.js'' \<and>
   fst (resolve_with_index
          (example_sys Posix (Some ''./dir'') [''./dir/util.js''] [''./dir'', ''./dir/util'']
             (\<lambda>k. True) []) ''./dir/util'' st0) = Some ''./dir/util.js'' \<and>
   stat (example_sys Posix (Some ''./dir'') [''./dir/util.js''] [''./dir'', ''./dir/util'']
             (\<lambda>k. True) []) ''./dir/util.js'' = Some S_IFREG \<and>
   access_R_OK (example_sys Posix (Some ''./dir'') [''./dir/util.js''] [''./dir'', ''./dir/util'']
             (\<lambda>k. True) []) ''./dir/util.js'' \<and>
   last (fs_checks (snd (resolve_qjsxpath
          (example_sys Posix (Some ''./dir'') [''./dir/util.js''] [''./dir'', ''./dir/util'']
             (\<lambda>k. True) []) ''util'' st0))) = ''./dir/util.js'' \<and>
   last (fs_checks (snd (resolve_with_index
          (example_sys Posix (Some ''./dir'') [''./dir/util.js''] [''./dir'', ''./dir/util'']
             (\<lambda>k. True) []) ''./dir/util'' st0))) = ''./dir/util.js''"
proof -
  let ?sys = "example_sys Posix (Some ''./dir'') [''./dir/util.js''] [''./dir'', ''./dir/util'']
             (\<lambda>k. True) []"
  have e: "getenv_QJSXPATH ?sys = Some ''./dir''" by (simp add: example_sys_def)
  have ok: "alloc_ok ?sys (allocs st0)" by (simp add: example_sys_def)
  have d: "search_dirs (plat ?sys) ''./dir'' = [''./dir'']" by (simp add: eval_defs)
  have h1: "fst (resolve_qjsxpath ?sys ''util'' st0) = Some ''./dir/util.js''"
    using resolve_qjsxpath_eq(1) [OF e ok, of "''util''"] unfolding d
    by (simp add: eval_defs)
  have h2: "fst (resolve_with_index ?sys ''./dir/util'' st0) = Some ''./dir/util.js''"
    unfolding resolve_with_index_ok [OF ok] by (simp add: eval_defs local_candidates_def)
  show ?thesis
    using h1 h2
      resolved_paths_verified [where sys = ?sys and name = "''util''" and st = st0
        and p = "''./dir/util.js''"]
      resolved_paths_verified [where sys = ?sys and name = "''./dir/util''" and st = st0
        and p = "''./dir/util.js''"]
    by blast
qed

subsection \<open>Normalization of the specifier\<close>

text \<open>
  C4. For a specifier without a colon, normalization returns \<^verbatim>\<open>NULL\<close> ("no change")
  and leaves the state alone. For a specifier with at least one colon it returns (when
  the copy can be allocated) a string of the same length in which every colon is a
  slash and every other character is unchanged in value and position, so
  \<open>node:fs\<close> becomes \<open>node/fs\<close>. On the memory model the function writes to the
  fresh copy only: every other block, the argument included, holds afterwards what it
  held before, and the copy holds the string the value-level model returns.
\<close>

theorem translate_colons:
  "(CHR '':'' \<notin> set name \<longrightarrow> translate_colons_to_slashes sys name st = (None, st)) \<and>
   (CHR '':'' \<in> set name \<and> alloc_ok sys (allocs st) \<longrightarrow>
      (\<exists>t. fst (translate_colons_to_slashes sys name st) = Some t \<and>
           length t = length name \<and>
           (\<forall>i<length name. t ! i = (if name ! i = CHR '':'' then CHR ''/'' else name ! i)))) \<and>
   (fresh \<noteq> Some b \<longrightarrow> snd (translate_colons_to_slashes_mem mem a fresh) b = mem b) \<and>
   (mem a = name \<and> CHR '':'' \<in> set name \<and> fresh = Some t' \<and> alloc_ok sys (allocs st) \<longrightarrow>
      fst (translate_colons_to_slashes_mem mem a fresh) = Some t' \<and>
      Some (snd (translate_colons_to_slashes_mem mem a fresh) t') =
        fst (translate_colons_to_slashes sys name st))"
  by (auto simp: translate_colons_to_slashes_eq translate_colons_to_slashes_mem_eq
      colon_to_slash_def split: option.splits)

theorem translate_colons_witness:
  "translate_colons_to_slashes (example_sys Posix None [] [] (\<lambda>k. True) []) ''lodash'' st0 =
     (None, st0) \<and>
   fst (translate_colons_to_slashes (example_sys Posix None [] [] (\<lambda>k. True) []) ''node:fs'' st0) =
     Some ''node/fs'' \<and>
   snd (translate_colons_to_slashes_mem ((\<lambda>a. []) (0 := ''node:fs'')) 0 (Some 1)) 0 = ''node:fs'' \<and>
   fst (translate_colons_to_slashes_mem ((\<lambda>a. []) (0 := ''node:fs'')) 0 (Some 1)) = Some 1 \<and>
   snd (translate_colons_to_slashes_mem ((\<lambda>a. []) (0 := ''node:fs'')) 0 (Some 1)) 1 = ''node/fs''"
proof -
  let ?sys = "example_sys Posix None [] [] (\<lambda>k. True) []"
  let ?mem = "(\<lambda>a. []) (0 := ''node:fs'') :: memory"
  have ok: "alloc_ok ?sys (allocs st0)" by (simp add: example_sys_def)
  have n: "CHR '':'' \<notin> set ''lodash''" by simp
  have c: "CHR '':'' \<in> set ''node:fs''" by simp
  have m: "?mem 0 = ''node:fs''" by simp
  have f: "Some (1::nat) \<noteq> Some 0" by simp
  note t1 = translate_colons
    [where sys = ?sys and name = "''lodash''" and st = st0 and mem = ?mem and a = 0
       and b = 0 and fresh = "Some 1" and t' = 1]
  note t2 = translate_colons
    [where sys = ?sys and name = "''node:fs''" and st = st0 and mem = ?mem and a = 0
       and b = 0 and fresh = "Some 1" and t' = 1]
  have r1: "translate_colons_to_slashes ?sys ''lodash'' st0 = (None, st0)"
    using t1 n by blast
  obtain t where t: "fst (translate_colons_to_slashes ?sys ''node:fs'' st0) = Some t"
    and l: "length t = length ''node:fs''"
    and p: "\<forall>i<length ''node:fs''. t ! i =
              (if ''node:fs'' ! i = CHR '':'' then CHR ''/'' else ''node:fs'' ! i)"
    using t2 c ok by blast
  have "t = ''node/fs''"
  proof (rule nth_equalityI)
    show "length t = length ''node/fs''" using l by simp
    fix i assume "i < length t"
    then have i: "i < 7" using l by simp
    then have "i = 0 \<or> i = 1 \<or> i = 2 \<or> i = 3 \<or> i = 4 \<or> i = 5 \<or> i = 6" by arith
    then show "t ! i = ''node/fs'' ! i" using p i by auto
  qed
  with t have r2: "fst (translate_colons_to_slashes ?sys ''node:fs'' st0) = Some ''node/fs''"
    by simp
  have r3: "snd (translate_colons_to_slashes_mem ?mem 0 (Some 1)) 0 = ''node:fs''"
    using t2 f m by simp
  have r4: "fst (translate_colons_to_slashes_mem ?mem 0 (Some 1)) = Some 1 \<and>
        Some (snd (translate_colons_to_slashes_mem ?mem 0 (Some 1)) 1) =
          fst (translate_colons_to_slashes ?sys ''node:fs'' st0)"
    using t2 m c ok by blast
  show ?thesis using r1 r2 r3 r4 by simp
qed

subsection \<open>The loader adapter\<close>

text \<open>
  C2. For every raw specifier the loader first normalizes it. If the possibly
  normalized specifier does not start with \<open>.\<close> or \<open>/\<close> it attempts search-path
  resolution (otherwise that stage is skipped); on absence it attempts local resolution
  on the possibly normalized specifier; on absence it hands the possibly normalized
  specifier itself to the host loader. The final outcome is the host loader's result for
  exactly one path: the search-path result, else the local result, else the specifier.
  The host loader is called exactly once, and when the search-path stage finds a path no
  existence check of the local stage is made.
\<close>

theorem qjsx_loader_sequence:
  "fst (qjsx_loader sys name st) = native_loader sys (chosen_path sys name st) \<and>
   loads (snd (qjsx_loader sys name st)) = loads st @ [chosen_path sys name st] \<and>
   chosen_path sys name st =
     (case fst (search_stage sys name st) of
        Some p \<Rightarrow> p
      | None \<Rightarrow>
          (case fst (local_stage sys name st) of
             Some q \<Rightarrow> q
           | None \<Rightarrow> normalized sys name st)) \<and>
   search_stage sys name st =
     (if take 1 (normalized sys name st) \<noteq> ''.'' \<and> take 1 (normalized sys name st) \<noteq> ''/''
      then resolve_qjsxpath sys (normalized sys name st)
             (snd (translate_colons_to_slashes sys name st))
      else (None, snd (translate_colons_to_slashes sys name st))) \<and>
   local_stage sys name st =
     resolve_with_index sys (normalized sys name st) (snd (search_stage sys name st)) \<and>
   normalized sys name st =
     (case fst (translate_colons_to_slashes sys name st) of Some t \<Rightarrow> t | None \<Rightarrow> name) \<and>
   fs_checks (snd (qjsx_loader sys name st)) =
     (case fst (search_stage sys name st) of
        Some p \<Rightarrow> fs_checks (snd (search_stage sys name st))
      | None \<Rightarrow> fs_checks (snd (local_stage sys name st)))"
proof (intro conjI)
  show "fst (qjsx_loader sys name st) = native_loader sys (chosen_path sys name st)"
    by (simp add: qjsx_loader_stages chosen_path_def js_module_loader_def split: option.splits)
  show "loads (snd (qjsx_loader sys name st)) = loads st @ [chosen_path sys name st]"
    by (simp add: qjsx_loader_stages chosen_path_def js_module_loader_def search_stage_loads
        local_stage_loads split: option.splits)
  show "chosen_path sys name st =
     (case fst (search_stage sys name st) of
        Some p \<Rightarrow> p
      | None \<Rightarrow>
          (case fst (local_stage sys name st) of
             Some q \<Rightarrow> q
           | None \<Rightarrow> normalized sys name st))"
    by (simp add: chosen_path_def)
  show "search_stage sys name st =
     (if take 1 (normalized sys name st) \<noteq> ''.'' \<and> take 1 (normalized sys name st) \<noteq> ''/''
      then resolve_qjsxpath sys (normalized sys name st)
             (snd (translate_colons_to_slashes sys name st))
      else (None, snd (translate_colons_to_slashes sys name st)))"
    unfolding search_stage_def is_bare_take ..
  show "local_stage sys name st =
     resolve_with_index sys (normalized sys name st) (snd (search_stage sys name st))"
    by (simp add: local_stage_def)
  show "normalized sys name st =
     (case fst (translate_colons_to_slashes sys name st) of Some t \<Rightarrow> t | None \<Rightarrow> name)"
    by (simp add: normalized_def)
  show "fs_checks (snd (qjsx_loader sys name st)) =
     (case fst (search_stage sys name st) of
        Some p \<Rightarrow> fs_checks (snd (search_stage sys name st))
      | None \<Rightarrow> fs_checks (snd (local_stage sys name st)))"
    by (simp add: qjsx_loader_stages js_module_loader_def split: option.splits)
qed

theorem qjsx_loader_sequence_witness:
  "fst (qjsx_loader
          (example_sys Posix (Some ''./lib'') [''./lib/node/fs.js'', ''./bar.js'']
             [''./lib'', ''./lib/node''] (\<lambda>k. True) [''./lib/node/fs.js'', ''./bar.js'', ''std''])
          ''node:fs'' st0) = Some ''./lib/node/fs.js'' \<and>
   loads (snd (qjsx_loader
          (example_sys Posix (Some ''./lib'') [''./lib/node/fs.js'', ''./bar.js'']
             [''./lib'', ''./lib/node''] (\<lambda>k. True) [''./lib/node/fs.js'', ''./bar.js'', ''std''])
          ''node:fs'' st0)) = [''./lib/node/fs.js''] \<and>
   fst (qjsx_loader
          (example_sys Posix (Some ''./lib'') [''./lib/node/fs.js'', ''./bar.js'']
             [''./lib'', ''./lib/node''] (\<lambda>k. True) [''./lib/node/fs.js'', ''./bar.js'', ''std''])
          ''./bar'' st0) = Some ''./bar.js'' \<and>
   loads (snd (qjsx_loader
          (example_sys Posix (Some ''./lib'') [''./lib/node/fs.js'', ''./bar.js'']
             [''./lib'', ''./lib/node''] (\<lambda>k. True) [''./lib/node/fs.js'', ''./bar.js'', ''std''])
          ''./bar'' st0)) = [''./bar.js''] \<and>
   fst (qjsx_loader
          (example_sys Posix (Some ''./lib'') [''./lib/node/fs.js'', ''./bar.js'']
             [''./lib'', ''./lib/node''] (\<lambda>k. True) [''./lib/node/fs.js'', ''./bar.js'', ''std''])
          ''std'' st0) = Some ''std'' \<and>
   loads (snd (qjsx_loader
          (example_sys Posix (Some ''./lib'') [''./lib/node/fs.js'', ''./bar.js'']
             [''./lib'', ''./lib/node''] (\<lambda>k. True) [''./lib/node/fs.js'', ''./bar.js'', ''std''])
          ''std'' st0)) = [''std'']"
proof -
  let ?sys = "example_sys Posix (Some ''./lib'') [''./lib/node/fs.js'', ''./bar.js'']
             [''./lib'', ''./lib/node''] (\<lambda>k. True) [''./lib/node/fs.js'', ''./bar.js'', ''std'']"
  have e: "getenv_QJSXPATH ?sys = Some ''./lib''" by (simp add: example_sys_def)
  have ok: "\<And>st. alloc_ok ?sys (allocs st)" by (simp add: example_sys_def)
  have d: "search_dirs (plat ?sys) ''./lib'' = [''./lib'']" by (simp add: eval_defs)
  have g: "\<And>k ds. granted (alloc_ok ?sys) k ds = ds"
    by (rule granted_all) (simp add: example_sys_def)
  have l0: "loads st0 = []" by (simp add: st0_def)
  have n: "\<And>p. native_loader ?sys p =
             (if p \<in> set [''./lib/node/fs.js'', ''./bar.js'', ''std''] then Some p else None)"
    by (simp add: example_sys_def)
  \<comment> \<open>a specifier with a colon, found on the search path\<close>
  have tA: "translate_colons_to_slashes ?sys ''node:fs'' st0 =
              (Some ''node/fs'', st0\<lparr>allocs := Suc (allocs st0)\<rparr>)"
    by (simp add: translate_colons_to_slashes_eq ok colon_to_slash_def)
  have sA: "fst (search_stage ?sys ''node:fs'' st0) = Some ''./lib/node/fs.js''"
    unfolding search_stage_eval(1) [OF tA refl]
    by (simp add: is_bare_def resolve_qjsxpath_eq(1) [OF e ok] d g)
       (simp add: eval_defs)
  have cA: "chosen_path ?sys ''node:fs'' st0 = ''./lib/node/fs.js''"
    by (simp add: chosen_path_def sA)
  \<comment> \<open>a relative specifier, found by the local resolver\<close>
  have tB: "translate_colons_to_slashes ?sys ''./bar'' st0 = (None, st0)"
    by (simp add: translate_colons_to_slashes_eq)
  have sB: "search_stage ?sys ''./bar'' st0 = (None, st0)"
    unfolding search_stage_eval(1) [OF tB refl] by (simp add: is_bare_def)
  have lB: "fst (local_stage ?sys ''./bar'' st0) = Some ''./bar.js''"
    unfolding local_stage_def sB search_stage_eval(2) [OF tB refl]
    by (simp add: resolve_with_index_ok [OF ok]) (simp add: eval_defs local_candidates_def)
  have cB: "chosen_path ?sys ''./bar'' st0 = ''./bar.js''"
    by (simp add: chosen_path_def sB lB)
  \<comment> \<open>a bare specifier found nowhere: the host loader gets it as it is\<close>
  have tC: "translate_colons_to_slashes ?sys ''std'' st0 = (None, st0)"
    by (simp add: translate_colons_to_slashes_eq)
  have sC: "fst (search_stage ?sys ''std'' st0) = None"
    unfolding search_stage_eval(1) [OF tC refl]
    by (simp add: is_bare_def resolve_qjsxpath_eq(1) [OF e ok] d g)
       (simp add: eval_defs)
  have lC: "fst (local_stage ?sys ''std'' st0) = None"
    unfolding local_stage_def search_stage_eval(2) [OF tC refl]
    by (simp add: resolve_with_index_ok [OF ok]) (simp add: eval_defs local_candidates_def)
  have cC: "chosen_path ?sys ''std'' st0 = ''std''"
    by (simp add: chosen_path_def sC lC search_stage_eval(2) [OF tC refl])
  show ?thesis
    using qjsx_loader_sequence [of ?sys "''node:fs''" st0]
      qjsx_loader_sequence [of ?sys "''./bar''" st0]
      qjsx_loader_sequence [of ?sys "''std''" st0]
    unfolding cA cB cC n l0 by simp
qed

text \<open>
  C10. Once the search-path stage or the local stage has produced a path, the outcome
  of the loader is the host loader's result for that path, also when that result is
  \<^verbatim>\<open>NULL\<close>: the host loader is called once, on the resolved path only, and after a
  hit of the search-path stage no existence check of the local stage follows.
\<close>

theorem no_fallback_after_hit:
  "(fst (search_stage sys name st) = Some p \<longrightarrow>
      qjsx_loader sys name st = js_module_loader sys p (snd (search_stage sys name st)) \<and>
      fst (qjsx_loader sys name st) = native_loader sys p \<and>
      (native_loader sys p = None \<longrightarrow> fst (qjsx_loader sys name st) = None) \<and>
      loads (snd (qjsx_loader sys name st)) = loads st @ [p] \<and>
      fs_checks (snd (qjsx_loader sys name st)) = fs_checks (snd (search_stage sys name st))) \<and>
   (fst (search_stage sys name st) = None \<and> fst (local_stage sys name st) = Some q \<longrightarrow>
      qjsx_loader sys name st = js_module_loader sys q (snd (local_stage sys name st)) \<and>
      fst (qjsx_loader sys name st) = native_loader sys q \<and>
      (native_loader sys q = None \<longrightarrow> fst (qjsx_loader sys name st) = None) \<and>
      loads (snd (qjsx_loader sys name st)) = loads st @ [q] \<and>
      fs_checks (snd (qjsx_loader sys name st)) = fs_checks (snd (local_stage sys name st)))"
  by (simp add: qjsx_loader_stages chosen_path_def js_module_loader_def search_stage_loads
      local_stage_loads)


theorem no_fallback_after_hit_witness:
  "fst (search_stage
          (example_sys Posix (Some ''./lib'') [''./lib/util.js'', ''util.js''] [''./lib'']
             (\<lambda>k. True) [''util.js''])
          ''util'' st0) = Some ''./lib/util.js'' \<and>
   native_loader
     (example_sys Posix (Some ''./lib'') [''./lib/util.js'', ''util.js''] [''./lib'']
        (\<lambda>k. True) [''util.js'']) ''./lib/util.js'' = None \<and>
   fst (qjsx_loader
          (example_sys Posix (Some ''./lib'') [''./lib/util.js'', ''util.js''] [''./lib'']
             (\<lambda>k. True) [''util.js''])
          ''util'' st0) = None \<and>
   loads (snd (qjsx_loader
          (example_sys Posix (Some ''./lib'') [''./lib/util.js'', ''util.js''] [''./lib'']
             (\<lambda>k. True) [''util.js''])
          ''util'' st0)) = [''./lib/util.js''] \<and>
   fs_checks (snd (qjsx_loader
          (example_sys Posix (Some ''./lib'') [''./lib/util.js'', ''util.js''] [''./lib'']
             (\<lambda>k. True) [''util.js''])
          ''util'' st0)) = [''./lib/util/index.js'', ''./lib/util.js''] \<and>
   fst (search_stage
          (example_sys Posix (Some ''./lib'') [''./lib/util.js'', ''util.js''] [''./lib'']
             (\<lambda>k. True) [''util.js''])
          ''./lib/util'' st0) = None \<and>
   fst (local_stage
          (example_sys Posix (Some ''./lib'') [''./lib/util.js'', ''util.js''] [''./lib'']
             (\<lambda>k. True) [''util.js''])
          ''./lib/util'' st0) = Some ''./lib/util.js'' \<and>
   fst (qjsx_loader
          (example_sys Posix (Some ''./lib'') [''./lib/util.js'', ''util.js''] [''./lib'']
             (\<lambda>k. True) [''util.js''])
          ''./lib/util'' st0) = None \<and>
   loads (snd (qjsx_loader
          (example_sys Posix (Some ''./lib'') [''./lib/util.js'', ''util.js''] [''./lib'']
             (\<lambda>k. True) [''util.js''])
          ''./lib/util'' st0)) = [''./lib/util.js'']"
proof -
  let ?sys = "example_sys Posix (Some ''./lib'') [''./lib/util.js'', ''util.js''] [''./lib'']
             (\<lambda>k. True) [''util.js'']"
  have e: "getenv_QJSXPATH ?sys = Some ''./lib''" by (simp add: example_sys_def)
  have ok: "\<And>st. alloc_ok ?sys (allocs st)" by (simp add: example_sys_def)
  have d: "search_dirs (plat ?sys) ''./lib'' = [''./lib'']" by (simp add: eval_defs)
  have g: "\<And>k ds. granted (alloc_ok ?sys) k ds = ds"
    by (rule granted_all) (simp add: example_sys_def)
  have l0: "loads st0 = []" and f0: "fs_checks st0 = []" by (simp_all add: st0_def)
  have n: "native_loader ?sys ''./lib/util.js'' = None" by (simp add: example_sys_def)
  have tA: "translate_colons_to_slashes ?sys ''util'' st0 = (None, st0)"
    by (simp add: translate_colons_to_slashes_eq)
  have sA: "fst (search_stage ?sys ''util'' st0) = Some ''./lib/util.js''"
    unfolding search_stage_eval(1) [OF tA refl]
    by (simp add: is_bare_def resolve_qjsxpath_eq(1) [OF e ok] d g)
       (simp add: eval_defs)
  have fA: "fs_checks (snd (search_stage ?sys ''util'' st0)) =
              [''./lib/util/index.js'', ''./lib/util.js'']"
    unfolding search_stage_eval(1) [OF tA refl]
    by (simp add: is_bare_def resolve_qjsxpath_eq(2) [OF e ok] d g f0)
       (simp add: eval_defs)
  have tB: "translate_colons_to_slashes ?sys ''./lib/util'' st0 = (None, st0)"
    by (simp add: translate_colons_to_slashes_eq)
  have sB: "search_stage ?sys ''./lib/util'' st0 = (None, st0)"
    unfolding search_stage_eval(1) [OF tB refl] by (simp add: is_bare_def)
  have sB': "fst (search_stage ?sys ''./lib/util'' st0) = None" by (simp add: sB)
  have lB: "fst (local_stage ?sys ''./lib/util'' st0) = Some ''./lib/util.js''"
    unfolding local_stage_def sB search_stage_eval(2) [OF tB refl]
    by (simp add: resolve_with_index_ok [OF ok]) (simp add: eval_defs local_candidates_def)
  have rA: "fst (qjsx_loader ?sys ''util'' st0) = None \<and>
            loads (snd (qjsx_loader ?sys ''util'' st0)) = [''./lib/util.js''] \<and>
            fs_checks (snd (qjsx_loader ?sys ''util'' st0)) =
              [''./lib/util/index.js'', ''./lib/util.js'']"
    using no_fallback_after_hit
        [where sys = ?sys and name = "''util''" and st = st0 and p = "''./lib/util.js''",
          THEN conjunct1, THEN mp, OF sA, THEN conjunct2]
      n fA l0 by simp
  have rB: "fst (qjsx_loader ?sys ''./lib/util'' st0) = None \<and>
            loads (snd (qjsx_loader ?sys ''./lib/util'' st0)) = [''./lib/util.js'']"
    using no_fallback_after_hit
        [where sys = ?sys and name = "''./lib/util''" and st = st0 and q = "''./lib/util.js''",
          THEN conjunct2, THEN mp, OF conjI [OF sB' lB], THEN conjunct2]
      n l0 by simp
  show ?thesis using sA n rA sB' lB rB by simp
qed

subsection \<open>Allocation failure\<close>

text \<open>
  C8. An allocation failure is never more than an absence. In the search-path
  resolver, when the buffer for a directory's candidates cannot be allocated, only
  that directory is skipped and the loop goes on with the next one: the result is the
  first existing candidate of the directories whose buffer was granted
  (\<^const>\<open>granted\<close>), and only their candidates are checked. When the copy of the path
  list cannot be allocated the search-path stage signals absence without a check; when
  the local resolver cannot allocate it signals absence after checking the specifier
  itself. Whatever allocations fail, the loader still ends by handing exactly one path
  to the host loader: a path that passed the existence check, or the specifier (raw or
  normalized).
\<close>

theorem allocation_failure_is_absence:
  "(getenv_QJSXPATH sys = Some paths \<and> alloc_ok sys (allocs st) \<longrightarrow>
      fst (resolve_qjsxpath sys name st) =
        find (readable_regular sys)
          (all_candidates sys name
             (granted (alloc_ok sys) (Suc (allocs st)) (search_dirs (plat sys) paths))) \<and>
      fs_checks (snd (resolve_qjsxpath sys name st)) =
        fs_checks st @ probed_prefix (readable_regular sys)
          (all_candidates sys name
             (granted (alloc_ok sys) (Suc (allocs st)) (search_dirs (plat sys) paths)))) \<and>
   (getenv_QJSXPATH sys = Some paths \<and> \<not> alloc_ok sys (allocs st) \<longrightarrow>
      resolve_qjsxpath sys name st = (None, st\<lparr>allocs := Suc (allocs st)\<rparr>)) \<and>
   (\<not> alloc_ok sys (allocs st) \<longrightarrow>
      resolve_with_index sys name st =
        (None, st\<lparr>allocs := Suc (allocs st), fs_checks := fs_checks st @ [name]\<rparr>)) \<and>
   (\<exists>p. fst (qjsx_loader sys name st) = native_loader sys p \<and>
        loads (snd (qjsx_loader sys name st)) = loads st @ [p] \<and>
        (readable_regular sys p \<or> p = name \<or> p = map colon_to_slash name))"
proof (intro conjI impI)
  assume a: "getenv_QJSXPATH sys = Some paths \<and> alloc_ok sys (allocs st)"
  then have e: "getenv_QJSXPATH sys = Some paths" and ok: "alloc_ok sys (allocs st)"
    by simp_all
  show "fst (resolve_qjsxpath sys name st) =
        find (readable_regular sys)
          (all_candidates sys name
             (granted (alloc_ok sys) (Suc (allocs st)) (search_dirs (plat sys) paths)))"
    by (rule resolve_qjsxpath_eq(1) [OF e ok])
  show "fs_checks (snd (resolve_qjsxpath sys name st)) =
        fs_checks st @ probed_prefix (readable_regular sys)
          (all_candidates sys name
             (granted (alloc_ok sys) (Suc (allocs st)) (search_dirs (plat sys) paths)))"
    by (rule resolve_qjsxpath_eq(2) [OF e ok])
next
  assume "getenv_QJSXPATH sys = Some paths \<and> \<not> alloc_ok sys (allocs st)"
  then show "resolve_qjsxpath sys name st = (None, st\<lparr>allocs := Suc (allocs st)\<rparr>)"
    by (simp add: resolve_qjsxpath_scan)
next
  assume "\<not> alloc_ok sys (allocs st)"
  then show "resolve_with_index sys name st =
        (None, st\<lparr>allocs := Suc (allocs st), fs_checks := fs_checks st @ [name]\<rparr>)"
    by (rule resolve_with_index_fail)
next
  let ?p = "chosen_path sys name st"
  have 1: "fst (qjsx_loader sys name st) = native_loader sys ?p"
    by (simp add: qjsx_loader_stages chosen_path_def js_module_loader_def split: option.splits)
  have 2: "loads (snd (qjsx_loader sys name st)) = loads st @ [?p]"
    by (simp add: qjsx_loader_stages chosen_path_def js_module_loader_def search_stage_loads
        local_stage_loads split: option.splits)
  have 3: "readable_regular sys ?p \<or> ?p = name \<or> ?p = map colon_to_slash name"
    using chosen_path_cases [of sys name st] normalized_cases [of sys name st] by auto
  from 1 2 3 show "\<exists>p. fst (qjsx_loader sys name st) = native_loader sys p \<and>
        loads (snd (qjsx_loader sys name st)) = loads st @ [p] \<and>
        (readable_regular sys p \<or> p = name \<or> p = map colon_to_slash name)"
    by blast
qed

theorem allocation_failure_is_absence_witness:
  "fst (resolve_qjsxpath
          (example_sys Posix (Some ''./a:./b'') [''./a/util.js'', ''./b/util.js''] [''./a'', ''./b'']
             (\<lambda>k. k \<noteq> 1) [])
          ''util'' st0) = Some ''./b/util.js'' \<and>
   fs_checks (snd (resolve_qjsxpath
          (example_sys Posix (Some ''./a:./b'') [''./a/util.js'', ''./b/util.js''] [''./a'', ''./b'']
             (\<lambda>k. k \<noteq> 1) [])
          ''util'' st0)) = [''./b/util/index.js'', ''./b/util.js''] \<and>
   resolve_qjsxpath
     (example_sys Posix (Some ''./a:./b'') [''./a/util.js'', ''./b/util.js''] [''./a'', ''./b'']
        (\<lambda>k. k \<noteq> 0) [])
     ''util'' st0 = (None, st0\<lparr>allocs := Suc (allocs st0)\<rparr>) \<and>
   resolve_with_index
     (example_sys Posix (Some ''./a:./b'') [''./a/util.js'', ''./b/util.js''] [''./a'', ''./b'']
        (\<lambda>k. k \<noteq> 0) [])
     ''./a/util.js'' st0 =
       (None, st0\<lparr>allocs := Suc (allocs st0), fs_checks := fs_checks st0 @ [''./a/util.js'']\<rparr>)"
proof -
  let ?s1 = "example_sys Posix (Some ''./a:./b'') [''./a/util.js'', ''./b/util.js''] [''./a'', ''./b'']
             (\<lambda>k. k \<noteq> 1) []"
  let ?s0 = "example_sys Posix (Some ''./a:./b'') [''./a/util.js'', ''./b/util.js''] [''./a'', ''./b'']
             (\<lambda>k. k \<noteq> 0) []"
  have h1: "getenv_QJSXPATH ?s1 = Some ''./a:./b'' \<and> alloc_ok ?s1 (allocs st0)"
    by (simp add: example_sys_def st0_def)
  have h0: "getenv_QJSXPATH ?s0 = Some ''./a:./b'' \<and> \<not> alloc_ok ?s0 (allocs st0)"
    by (simp add: example_sys_def st0_def)
  have d: "search_dirs (plat ?s1) ''./a:./b'' = [''./a'', ''./b'']" by (simp add: eval_defs)
  have g: "granted (alloc_ok ?s1) (Suc (allocs st0)) [''./a'', ''./b''] = [''./b'']"
    by (simp add: example_sys_def st0_def)
  have c: "all_candidates ?s1 ''util'' [''./b''] =
             [''./b/util/index.js'', ''./b/util.js'', ''./b/util'']"
    by (simp add: eval_defs)
  have f: "fs_checks st0 = []" by (simp add: st0_def)
  have r1: "fst (resolve_qjsxpath ?s1 ''util'' st0) = Some ''./b/util.js'' \<and>
            fs_checks (snd (resolve_qjsxpath ?s1 ''util'' st0)) =
              [''./b/util/index.js'', ''./b/util.js'']"
    using allocation_failure_is_absence
        [where sys = ?s1 and paths = "''./a:./b''" and st = st0 and name = "''util''",
          THEN conjunct1, THEN mp, OF h1]
    unfolding d g c f by (simp add: example_sys_def readable_regular_def)
  have r2: "resolve_qjsxpath ?s0 ''util'' st0 = (None, st0\<lparr>allocs := Suc (allocs st0)\<rparr>)"
    using allocation_failure_is_absence
        [where sys = ?s0 and paths = "''./a:./b''" and st = st0 and name = "''util''",
          THEN conjunct2, THEN conjunct1, THEN mp, OF h0] .
  have r3: "resolve_with_index ?s0 ''./a/util.js'' st0 =
       (None, st0\<lparr>allocs := Suc (allocs st0), fs_checks := fs_checks st0 @ [''./a/util.js'']\<rparr>)"
    using allocation_failure_is_absence
        [where sys = ?s0 and paths = "''./a:./b''" and st = st0 and name = "''./a/util.js''",
          THEN conjunct2, THEN conjunct2, THEN conjunct1, THEN mp, OF conjunct2 [OF h0]] .
  show ?thesis using r1 r2 r3 by blast
qed

end
